theory Spec2Isabelle
  imports Complex_Main "HOL-Library.Sublist" "HOL-Library.Log_Nat"
begin

section \<open>Data model\<close>

text \<open>
  A product as \<open>generateMockProducts\<close> builds it (App.jsx, lines 147-156). The
  identifier field \<open>id\<close> is called \<open>pid\<close> here. The \<open>rating\<close> field holds the
  decimal value that the rating text denotes (the generator writes it with
  \<open>toFixed(1)\<close>); \<open>parseFloat\<close> below turns it into a double. The integer fields
  hold JavaScript numbers that are integers.
\<close>

record product =
  pid :: int
  name :: string
  category :: string
  price :: int
  stock :: int
  status :: string
  sales :: int
  rating :: rat

text \<open>
  The store state of \<open>ProductProvider\<close> (lines 134-140); the field \<open>filter\<close> is
  called \<open>filter_s\<close>, and \<open>null\<close> in \<open>error\<close> is \<open>None\<close>.
\<close>

record state =
  products :: "product list"
  loading :: bool
  filter_s :: string
  searchTerm :: string
  error :: "string option"

text \<open>
  The actions of \<open>productReducer\<close>, one constructor for each \<open>case\<close> label of the
  \<open>switch\<close>, and \<open>OTHER\<close> for every action type that reaches \<open>default\<close>.
\<close>

datatype action =
    SET_PRODUCTS "product list"
  | SET_LOADING bool
  | SET_FILTER string
  | SET_SEARCH string
  | ADD_PRODUCT product
  | UPDATE_PRODUCT product
  | DELETE_PRODUCT int
  | SET_ERROR "string option"
  | OTHER string

section \<open>The product reducer\<close>

text \<open>
  \<open>productReducer\<close> (lines 99-131). The case \<open>ADD_PRODUCT\<close> reads the clock
  (\<open>Date.now()\<close>); the reading is the first argument \<open>now\<close>.
\<close>

fun productReducer :: "int \<Rightarrow> state \<Rightarrow> action \<Rightarrow> state" where
  "productReducer now s (SET_PRODUCTS payload) = s\<lparr>products := payload, loading := False\<rparr>"
| "productReducer now s (SET_LOADING payload) = s\<lparr>loading := payload\<rparr>"
| "productReducer now s (SET_FILTER payload) = s\<lparr>filter_s := payload\<rparr>"
| "productReducer now s (SET_SEARCH payload) = s\<lparr>searchTerm := payload\<rparr>"
| "productReducer now s (ADD_PRODUCT payload) =
     s\<lparr>products := products s @ [payload\<lparr>pid := now\<rparr>]\<rparr>"
| "productReducer now s (UPDATE_PRODUCT payload) =
     s\<lparr>products := map (\<lambda>p. if pid p = pid payload then payload else p) (products s)\<rparr>"
| "productReducer now s (DELETE_PRODUCT payload) =
     s\<lparr>products := filter (\<lambda>p. pid p \<noteq> payload) (products s)\<rparr>"
| "productReducer now s (SET_ERROR payload) = s\<lparr>error := payload, loading := False\<rparr>"
| "productReducer now s (OTHER t) = s"

text \<open>The initial store of \<open>useReducer\<close> (lines 134-140).\<close>

definition initialState :: state where
  "initialState =
     \<lparr>products = [], loading = True, filter_s = ''all'', searchTerm = [], error = None\<rparr>"

section \<open>The simulated load\<close>

text \<open>
  The effect of \<open>ProductProvider\<close> (lines 159-180), for one run of the effect with its
  own \<open>AbortController\<close>. \<open>store\<close> is the store the dispatches act on, \<open>aborted\<close> is
  \<open>abortController.signal.aborted\<close>, \<open>waiting\<close> says that the promise of line 165 has
  not resolved yet, and \<open>dispatched\<close> records every action passed to \<open>dispatch\<close>, in
  order.
\<close>

record fetch_state =
  store :: state
  aborted :: bool
  waiting :: bool
  dispatched :: "action list"

text \<open>\<open>dispatch(action)\<close>: the reducer runs on the store, and the action is recorded.\<close>

definition dispatch :: "int \<Rightarrow> action \<Rightarrow> fetch_state \<Rightarrow> fetch_state" where
  "dispatch now a f =
     f\<lparr>store := productReducer now (store f) a, dispatched := dispatched f @ [a]\<rparr>"

text \<open>
  \<open>fetchProducts()\<close> up to its \<open>await\<close> (lines 164-165), on a fresh controller:
  \<open>SET_LOADING\<close> is dispatched and the function waits for the timer. Nothing in the
  \<open>try\<close> block throws (the promise only resolves), so the \<open>catch\<close> of lines 171-175
  has no transition.
\<close>

definition fetchProducts :: "int \<Rightarrow> state \<Rightarrow> fetch_state" where
  "fetchProducts now s =
     dispatch now (SET_LOADING True)
       \<lparr>store = s, aborted = False, waiting = True, dispatched = []\<rparr>"

text \<open>
  The two things that can happen to a started load: the cleanup of the effect calls
  \<open>abortController.abort()\<close> (line 179), and the timer of line 165 fires after its
  delay, which resumes \<open>fetchProducts\<close> at line 167. The products of
  \<open>generateMockProducts()\<close> are random; they are the argument \<open>mock\<close>.
\<close>

datatype fetch_event = Abort | Elapsed

fun fetch_step :: "int \<Rightarrow> product list \<Rightarrow> fetch_state \<Rightarrow> fetch_event \<Rightarrow> fetch_state" where
  "fetch_step now mock f Abort = f\<lparr>aborted := True\<rparr>"
| "fetch_step now mock f Elapsed =
     (if waiting f
      then (if \<not> aborted f then dispatch now (SET_PRODUCTS mock) f else f)\<lparr>waiting := False\<rparr>
      else f)"

definition fetch_run :: "int \<Rightarrow> product list \<Rightarrow> fetch_state \<Rightarrow> fetch_event list \<Rightarrow> fetch_state" where
  "fetch_run now mock f es = foldl (fetch_step now mock) f es"

section \<open>The notification queue\<close>

text \<open>
  A notification (\<open>id\<close> is \<open>nid\<close>, \<open>type\<close> is \<open>ntype\<close>), and the state of
  \<open>NotificationProvider\<close> (lines 187-209): the list \<open>notifications\<close> and the pending
  timers of \<open>setTimeout\<close>, each with the time in milliseconds at which it is due and the
  \<open>id\<close> its callback has captured.
\<close>

record notification =
  nid :: int
  ntype :: string
  message :: string

record notification_state =
  notifications :: "notification list"
  timers :: "(int \<times> int) list"

definition noNotifications :: notification_state where
  "noNotifications = \<lparr>notifications = [], timers = []\<rparr>"

text \<open>\<open>addNotification\<close> (lines 190-197); \<open>now\<close> is the reading of \<open>Date.now()\<close>.\<close>

definition addNotification :: "int \<Rightarrow> notification \<Rightarrow> notification_state \<Rightarrow> notification_state" where
  "addNotification now n s =
     s\<lparr>notifications := notifications s @ [n\<lparr>nid := now\<rparr>],
       timers := timers s @ [(now + 5000, now)]\<rparr>"

text \<open>\<open>removeNotification\<close> (lines 199-201).\<close>

definition removeNotification :: "int \<Rightarrow> notification_state \<Rightarrow> notification_state" where
  "removeNotification i s =
     s\<lparr>notifications := filter (\<lambda>n. nid n \<noteq> i) (notifications s)\<rparr>"

text \<open>The callback of the timer (line 195), for the captured \<open>id\<close>.\<close>

definition timeoutCallback :: "int \<Rightarrow> notification_state \<Rightarrow> notification_state" where
  "timeoutCallback i s =
     s\<lparr>notifications := filter (\<lambda>n. nid n \<noteq> i) (notifications s)\<rparr>"

text \<open>
  The clock reaches \<open>now\<close>: the callbacks of the timers that are due run, in the order in
  which the timers were set, and these timers are no longer pending.
\<close>

definition runTimers :: "int \<Rightarrow> notification_state \<Rightarrow> notification_state" where
  "runTimers now s =
     (foldl (\<lambda>s' t. timeoutCallback (snd t) s') s (filter (\<lambda>t. fst t \<le> now) (timers s)))
       \<lparr>timers := filter (\<lambda>t. \<not> fst t \<le> now) (timers s)\<rparr>"

text \<open>
  What happens to the queue: a message is enqueued at a clock reading, a message is
  dismissed by its identifier, or time passes.
\<close>

datatype notification_event =
    Enqueue int notification
  | Dismiss int
  | Tick int

fun notification_step :: "notification_state \<Rightarrow> notification_event \<Rightarrow> notification_state" where
  "notification_step s (Enqueue now n) = addNotification now n s"
| "notification_step s (Dismiss i) = removeNotification i s"
| "notification_step s (Tick now) = runTimers now s"

definition notification_run :: "notification_state \<Rightarrow> notification_event list \<Rightarrow> notification_state" where
  "notification_run s es = foldl notification_step s es"

text \<open>The messages a list of events enqueues, in the order of the events.\<close>

fun enqueued :: "notification_event list \<Rightarrow> notification list" where
  "enqueued [] = []"
| "enqueued (Enqueue now n # es) = n\<lparr>nid := now\<rparr> # enqueued es"
| "enqueued (Dismiss i # es) = enqueued es"
| "enqueued (Tick now # es) = enqueued es"

text \<open>
  The invariant of the queue: every message in it has a pending timer, due 5000
  milliseconds after the clock reading that is its identifier, and every pending timer
  is due 5000 milliseconds after the identifier it has captured.
\<close>

definition timers_pending :: "notification_state \<Rightarrow> bool" where
  "timers_pending s =
     ((\<forall>m \<in> set (notifications s). (nid m + 5000, nid m) \<in> set (timers s))
      \<and> (\<forall>t \<in> set (timers s). fst t = snd t + 5000))"

section \<open>The analytics aggregator\<close>

text \<open>
  A JavaScript number: a finite double, given by its exact value, \<open>NaN\<close> or an infinity.
  The two zeros are one value here.
\<close>

datatype number = Finite rat | NaN | PosInfinity | NegInfinity

text \<open>
  Rounding to the nearest double, ties to even, as IEEE 754 and ECMAScript prescribe for
  every arithmetic operation. \<open>binade x\<close> is the exponent \<open>e\<close> with
  \<open>2^e \<le> |x| < 2^(e+1)\<close>; \<open>ulp x\<close> is the distance between neighbouring doubles at
  \<open>x\<close>, with 53 significant bits and the least exponent -1022 (below it the doubles are
  subnormal); a result of \<open>2^1024\<close> or more overflows to an infinity.
\<close>

definition binade :: "rat \<Rightarrow> int" where
  "binade x =
     (if 1 \<le> \<bar>x\<bar> then bitlen \<lfloor>\<bar>x\<bar>\<rfloor> - 1 else - bitlen (\<lceil>1 / \<bar>x\<bar>\<rceil> - 1))"

definition round_half_even :: "rat \<Rightarrow> int" where
  "round_half_even y =
     (if y - of_int \<lfloor>y\<rfloor> < 1 / 2 then \<lfloor>y\<rfloor>
      else if 1 / 2 < y - of_int \<lfloor>y\<rfloor> then \<lfloor>y\<rfloor> + 1
      else if even \<lfloor>y\<rfloor> then \<lfloor>y\<rfloor> else \<lfloor>y\<rfloor> + 1)"

definition ulp :: "rat \<Rightarrow> rat" where
  "ulp x = 2 powi (max (binade x) (- 1022) - 52)"

definition round_double :: "rat \<Rightarrow> number" where
  "round_double x =
     (if x = 0 then Finite 0
      else if 2 ^ 1024 \<le> of_int (round_half_even (\<bar>x\<bar> / ulp x)) * ulp x
      then (if x < 0 then NegInfinity else PosInfinity)
      else Finite (if x < 0 then - (of_int (round_half_even (\<bar>x\<bar> / ulp x)) * ulp x)
                   else of_int (round_half_even (\<bar>x\<bar> / ulp x)) * ulp x))"

text \<open>\<open>x + y\<close> on numbers.\<close>

fun js_add :: "number \<Rightarrow> number \<Rightarrow> number" where
  "js_add (Finite a) (Finite b) = round_double (a + b)"
| "js_add NaN y = NaN"
| "js_add x NaN = NaN"
| "js_add PosInfinity NegInfinity = NaN"
| "js_add NegInfinity PosInfinity = NaN"
| "js_add PosInfinity y = PosInfinity"
| "js_add NegInfinity y = NegInfinity"
| "js_add x PosInfinity = PosInfinity"
| "js_add x NegInfinity = NegInfinity"

text \<open>
  \<open>x / y\<close> on numbers. A division by zero does not raise: it yields \<open>NaN\<close> or an
  infinity. A zero divisor is taken to be the positive zero, which \<open>products.length\<close>
  is when it is zero.
\<close>

fun js_divide :: "number \<Rightarrow> number \<Rightarrow> number" where
  "js_divide (Finite a) (Finite b) =
     (if b = 0 then (if a = 0 then NaN else if 0 < a then PosInfinity else NegInfinity)
      else round_double (a / b))"
| "js_divide NaN y = NaN"
| "js_divide x NaN = NaN"
| "js_divide (Finite a) y = Finite 0"
| "js_divide PosInfinity (Finite b) = (if b < 0 then NegInfinity else PosInfinity)"
| "js_divide NegInfinity (Finite b) = (if b < 0 then PosInfinity else NegInfinity)"
| "js_divide x y = NaN"

text \<open>
  \<open>parseFloat\<close> on a rating: the double nearest to the decimal value of the text. Where
  the field holds a number instead of a text, \<open>parseFloat\<close> returns that number, and a
  double is its own nearest double.
\<close>

definition parseFloat :: "rat \<Rightarrow> number" where
  "parseFloat r = round_double r"

text \<open>
  The text that \<open>x.toFixed(1)\<close> returns. \<open>Tenths neg n\<close> is the text with a minus sign
  when \<open>neg\<close>, then the decimal digits of \<open>n div 10\<close>, a point and the digit
  \<open>n mod 10\<close>: \<open>Tenths False 40\<close> is the text 4.0. \<open>NumberText x\<close> is the text of
  \<open>String(x)\<close>, which \<open>toFixed\<close> returns for \<open>NaN\<close>, the infinities and the numbers
  from \<open>10^21\<close>. Otherwise \<open>n\<close> is the integer for which \<open>n / 10\<close> is nearest to the
  absolute value of \<open>x\<close>, the larger one of two.
\<close>

datatype fixed_text = Tenths bool nat | NumberText number

fun toFixed1 :: "number \<Rightarrow> fixed_text" where
  "toFixed1 (Finite x) =
     (if 10 ^ 21 \<le> \<bar>x\<bar> then NumberText (Finite x)
      else Tenths (x < 0) (nat \<lfloor>\<bar>x\<bar> * 10 + 1 / 2\<rfloor>))"
| "toFixed1 x = NumberText x"

record analytics_result =
  totalProducts :: nat
  totalSales :: number
  averageRating :: fixed_text
  outOfStock :: nat

text \<open>
  The value \<open>analytics\<close> of \<open>AnalyticsDashboard\<close> (lines 275-286); \<open>null\<close> is
  \<open>None\<close>, \<open>reduce\<close> is \<open>foldl\<close>, and the integer \<open>sales\<close> of a product is the
  double of that value.
\<close>

definition analytics :: "product list \<Rightarrow> analytics_result option" where
  "analytics ps =
     (if length ps = 0 then None
      else Some
        \<lparr>totalProducts = length ps,
         totalSales = foldl (\<lambda>sum p. js_add sum (round_double (of_int (sales p)))) (Finite 0) ps,
         averageRating =
           toFixed1
             (js_divide (foldl (\<lambda>sum p. js_add sum (parseFloat (rating p))) (Finite 0) ps)
                (Finite (of_nat (length ps)))),
         outOfStock = length (filter (\<lambda>p. stock p = 0) ps)\<rparr>)"

section \<open>The virtual list\<close>

text \<open>
  \<open>Array.prototype.slice(start, end)\<close> on integers: a negative index counts from the
  end of the array, both indices are clamped to the array, and the result is empty when
  the end does not lie after the start.
\<close>

definition slice :: "'a list \<Rightarrow> int \<Rightarrow> int \<Rightarrow> 'a list" where
  "slice xs s e =
     (let len = int (length xs);
          k = (if s < 0 then max (len + s) 0 else min s len);
          final = (if e < 0 then max (len + e) 0 else min e len)
      in take (nat (final - k)) (drop (nat k) xs))"

text \<open>
  The scroll container as \<open>handleScroll\<close> reads it (line 349), and the state
  \<open>visibleRange\<close> (line 343), whose fields \<open>start\<close> and \<open>end\<close> are \<open>range_start\<close> and
  \<open>range_end\<close>.
\<close>

record container =
  scrollTop :: rat
  clientHeight :: int

record visibleRange =
  range_start :: int
  range_end :: int

definition initialRange :: visibleRange where
  "initialRange = \<lparr>range_start = 0, range_end = 50\<rparr>"

definition itemHeight :: int where
  "itemHeight = 100"

text \<open>
  \<open>handleScroll\<close> (lines 347-355): the container is \<open>None\<close> when \<open>containerRef.current\<close>
  is not set, \<open>n\<close> is \<open>products.length\<close>, and the result is the next \<open>visibleRange\<close>.
\<close>

definition handleScroll :: "container option \<Rightarrow> nat \<Rightarrow> visibleRange \<Rightarrow> visibleRange" where
  "handleScroll c n r =
     (case c of
        None \<Rightarrow> r
      | Some el \<Rightarrow>
          (let start = \<lfloor>scrollTop el / of_int itemHeight\<rfloor>;
               end_index = min (start + \<lceil>of_int (clientHeight el) / (of_int itemHeight :: rat)\<rceil> + 5) (int n)
           in \<lparr>range_start = start, range_end = end_index\<rparr>))"

definition visibleProducts :: "product list \<Rightarrow> visibleRange \<Rightarrow> product list" where
  "visibleProducts ps r = slice ps (range_start r) (range_end r)"

text \<open>
  What \<open>VirtualProductList\<close> renders into the container (lines 374-378): a spacer, one
  row for each visible product, a spacer. The heights of the spacers are the ones of the
  \<open>style\<close> attributes.
\<close>

datatype element = Spacer int | Row product

definition VirtualProductList :: "product list \<Rightarrow> visibleRange \<Rightarrow> element list" where
  "VirtualProductList ps r =
     Spacer (range_start r * 100) # map Row (visibleProducts ps r)
       @ [Spacer ((int (length ps) - range_end r) * 100)]"

text \<open>
  The height of the rendered content, each row taken to be as high as the constant
  \<open>itemHeight\<close> that \<open>handleScroll\<close> assumes.
\<close>

fun height :: "element \<Rightarrow> int" where
  "height (Spacer h) = h"
| "height (Row p) = itemHeight"

definition totalHeight :: "element list \<Rightarrow> int" where
  "totalHeight els = sum_list (map height els)"

section \<open>Example data\<close>

definition exampleProduct :: "int \<Rightarrow> int \<Rightarrow> rat \<Rightarrow> product" where
  "exampleProduct i s r =
     \<lparr>pid = i, name = ''Product'', category = ''Books'', price = 10, stock = 0,
      status = ''active'', sales = s, rating = r\<rparr>"

definition exampleNotification :: notification where
  "exampleNotification = \<lparr>nid = 0, ntype = ''success'', message = ''Product deleted successfully''\<rparr>"

section \<open>Properties of the reducer\<close>

text \<open>
  Claim C10. For every state, the action set-collection (\<open>SET_PRODUCTS\<close>) replaces the
  products by the payload and sets the loading flag to false in the same transition; the
  error, the filter and the search term are as before.
\<close>

theorem set_products_frame:
  "productReducer now s (SET_PRODUCTS ps) =
     \<lparr>products = ps, loading = False, filter_s = filter_s s,
      searchTerm = searchTerm s, error = error s\<rparr>"
  by simp

text \<open>
  Claim C2, as the code has it. For every state and every \<open>ADD_PRODUCT\<close> action the new
  collection is the prior one with exactly one entry appended: the length grows by one
  and every prior entry stays in its place. The appended entry is the payload with the
  clock reading \<open>Date.now()\<close> as its identifier, whatever identifier the payload
  carried; this identifier is absent from the prior collection exactly when no prior
  entry already has the clock reading as its identifier.
\<close>

theorem add_product_appends:
  "products (productReducer now s (ADD_PRODUCT p)) = products s @ [p\<lparr>pid := now\<rparr>]
   \<and> length (products (productReducer now s (ADD_PRODUCT p))) = Suc (length (products s))
   \<and> (\<forall>i < length (products s).
         products (productReducer now s (ADD_PRODUCT p)) ! i = products s ! i)
   \<and> pid (last (products (productReducer now s (ADD_PRODUCT p)))) = now
   \<and> ((pid (last (products (productReducer now s (ADD_PRODUCT p)))) \<notin> pid ` set (products s))
        = (\<forall>q \<in> set (products s). pid q \<noteq> now))"
  by (auto simp: nth_append)

theorem add_product_appends_witness:
  "length (products (productReducer 1700000000000 initialState
       (ADD_PRODUCT (exampleProduct 0 10 4)))) = 1
   \<and> pid (last (products (productReducer 1700000000000 initialState
       (ADD_PRODUCT (exampleProduct 0 10 4))))) = 1700000000000
   \<and> pid (last (products (productReducer 1700000000000 initialState
       (ADD_PRODUCT (exampleProduct 0 10 4))))) \<notin> pid ` set (products initialState)"
  using add_product_appends [of 1700000000000 initialState "exampleProduct 0 10 4"]
  by (simp add: initialState_def)

text \<open>
  Two \<open>ADD_PRODUCT\<close> actions reduced at the same clock reading: the identifier of the
  second entry is the identifier of the first, which is in the prior collection.
\<close>

theorem add_product_fresh_counterexample:
  "pid (last (products (productReducer 1700000000000
        (productReducer 1700000000000 initialState (ADD_PRODUCT (exampleProduct 0 10 4)))
        (ADD_PRODUCT (exampleProduct 0 20 5)))))
   \<in> pid ` set (products
        (productReducer 1700000000000 initialState (ADD_PRODUCT (exampleProduct 0 10 4))))"
  by (simp add: initialState_def exampleProduct_def)

text \<open>
  Claim C3, as the code has it. The reducer is a total function of the clock reading, the
  state and the action. For every action but \<open>ADD_PRODUCT\<close> the new state is the same at
  any two clock readings, so it is a function of the state and the action alone; for
  \<open>ADD_PRODUCT\<close> two evaluations on the same state and action give the same state
  exactly when they read the same clock value.
\<close>

theorem productReducer_deterministic:
  "(productReducer t1 s a = productReducer t2 s a)
     = (case a of ADD_PRODUCT p \<Rightarrow> t1 = t2 | _ \<Rightarrow> True)"
  by (cases a) (auto dest: arg_cong [where f = "\<lambda>s. pid (last (products s))"])

theorem productReducer_deterministic_witness:
  "productReducer 1 initialState (DELETE_PRODUCT 7) = productReducer 2 initialState (DELETE_PRODUCT 7)"
  using productReducer_deterministic [of 1 initialState "DELETE_PRODUCT 7" 2]
  by simp

theorem productReducer_deterministic_counterexample:
  "productReducer 1 initialState (ADD_PRODUCT (exampleProduct 0 10 4))
     \<noteq> productReducer 2 initialState (ADD_PRODUCT (exampleProduct 0 10 4))"
  by (simp add: initialState_def exampleProduct_def)

lemma map_replace_absent:
  "k \<notin> pid ` set xs \<Longrightarrow> map (\<lambda>q. if pid q = k then p else q) xs = xs"
  by (induction xs) auto

lemma filter_remove_absent:
  "k \<notin> pid ` set xs \<Longrightarrow> filter (\<lambda>q. pid q \<noteq> k) xs = xs"
  by (induction xs) auto

text \<open>
  Claim C5. For every state and every \<open>UPDATE_PRODUCT\<close> action with payload \<open>p\<close> the
  collection keeps its length; at every position the new entry is \<open>p\<close> when the prior
  entry has the identifier of \<open>p\<close>, and the prior entry otherwise. When no entry has the
  identifier of \<open>p\<close> the state is unchanged.
\<close>

theorem update_product_replaces:
  "length (products (productReducer now s (UPDATE_PRODUCT p))) = length (products s)
   \<and> (\<forall>i < length (products s).
         products (productReducer now s (UPDATE_PRODUCT p)) ! i
           = (if pid (products s ! i) = pid p then p else products s ! i))
   \<and> (pid p \<notin> pid ` set (products s)
        \<longrightarrow> productReducer now s (UPDATE_PRODUCT p) = s)"
  by (simp add: map_replace_absent)

theorem update_product_replaces_witness:
  "products (productReducer 0
       (initialState\<lparr>products := [exampleProduct 1 10 4, exampleProduct 2 20 5]\<rparr>)
       (UPDATE_PRODUCT (exampleProduct 2 30 3))) ! 1 = exampleProduct 2 30 3
   \<and> products (productReducer 0
       (initialState\<lparr>products := [exampleProduct 1 10 4, exampleProduct 2 20 5]\<rparr>)
       (UPDATE_PRODUCT (exampleProduct 2 30 3))) ! 0 = exampleProduct 1 10 4
   \<and> productReducer 0
       (initialState\<lparr>products := [exampleProduct 1 10 4, exampleProduct 2 20 5]\<rparr>)
       (UPDATE_PRODUCT (exampleProduct 3 30 3))
     = initialState\<lparr>products := [exampleProduct 1 10 4, exampleProduct 2 20 5]\<rparr>"
  using update_product_replaces [of 0
      "initialState\<lparr>products := [exampleProduct 1 10 4, exampleProduct 2 20 5]\<rparr>"
      "exampleProduct 2 30 3"]
    update_product_replaces [of 0
      "initialState\<lparr>products := [exampleProduct 1 10 4, exampleProduct 2 20 5]\<rparr>"
      "exampleProduct 3 30 3"]
  by (simp add: exampleProduct_def)

text \<open>
  Claim C6. For every state and every identifier \<open>i\<close>, after \<open>DELETE_PRODUCT i\<close> a
  lookup of \<open>i\<close> in the collection finds nothing; the entries with another identifier
  are the same as before, in the same order, and the new collection is a subsequence of
  the prior one. When no entry had the identifier \<open>i\<close> the state is unchanged.
\<close>

theorem delete_product_removes:
  "find (\<lambda>p. pid p = i) (products (productReducer now s (DELETE_PRODUCT i))) = None
   \<and> set (products (productReducer now s (DELETE_PRODUCT i)))
        = {p \<in> set (products s). pid p \<noteq> i}
   \<and> filter (\<lambda>p. pid p \<noteq> i) (products (productReducer now s (DELETE_PRODUCT i)))
        = filter (\<lambda>p. pid p \<noteq> i) (products s)
   \<and> subseq (products (productReducer now s (DELETE_PRODUCT i))) (products s)
   \<and> (i \<notin> pid ` set (products s) \<longrightarrow> productReducer now s (DELETE_PRODUCT i) = s)"
  by (auto simp: find_None_iff filter_remove_absent)

theorem delete_product_removes_witness:
  "find (\<lambda>p. pid p = 1) (products (productReducer 0
       (initialState\<lparr>products := [exampleProduct 1 10 4, exampleProduct 2 20 5]\<rparr>)
       (DELETE_PRODUCT 1))) = None
   \<and> productReducer 0
       (initialState\<lparr>products := [exampleProduct 1 10 4, exampleProduct 2 20 5]\<rparr>)
       (DELETE_PRODUCT 3)
     = initialState\<lparr>products := [exampleProduct 1 10 4, exampleProduct 2 20 5]\<rparr>"
  using delete_product_removes [of 1 0
      "initialState\<lparr>products := [exampleProduct 1 10 4, exampleProduct 2 20 5]\<rparr>"]
    delete_product_removes [of 3 0
      "initialState\<lparr>products := [exampleProduct 1 10 4, exampleProduct 2 20 5]\<rparr>"]
  by (simp add: exampleProduct_def)

section \<open>Properties of the virtual list\<close>

lemma slice_length:
  "0 \<le> s \<Longrightarrow> s \<le> e \<Longrightarrow> e \<le> int (length xs) \<Longrightarrow> length (slice xs s e) = nat (e - s)"
  by (auto simp: slice_def Let_def)

lemma slice_beyond:
  "int (length xs) \<le> s \<Longrightarrow> slice xs s e = []"
  by (auto simp: slice_def Let_def)

lemma totalHeight_list:
  "totalHeight (VirtualProductList ps r)
     = range_start r * 100 + int (length (visibleProducts ps r)) * 100
       + (int (length ps) - range_end r) * 100"
  by (simp add: totalHeight_def VirtualProductList_def itemHeight_def comp_def sum_list_triv)

lemma range_start_le_end:
  assumes "0 \<le> clientHeight el"
    and "range_start (handleScroll (Some el) n r) \<le> int n"
  shows "range_start (handleScroll (Some el) n r) \<le> range_end (handleScroll (Some el) n r)"
proof -
  have "0 \<le> \<lceil>of_int (clientHeight el) / (100 :: rat)\<rceil>"
    using assms(1) by (simp add: le_ceiling_iff)
  then show ?thesis
    using assms(2) by (simp add: handleScroll_def Let_def itemHeight_def)
qed

text \<open>
  Claim C1, as the code has it. For every product sequence of length \<open>N\<close>, every scroll
  offset that is not negative and whose start index \<open>floor (scrollOffset / 100)\<close> is at
  most \<open>N\<close>, and every client height that is not negative: with the range that
  \<open>handleScroll\<close> computes, the height of the top spacer plus 100 for each rendered row
  plus the height of the bottom spacer is exactly \<open>N * 100\<close>.
\<close>

theorem total_height_constant:
  assumes "0 \<le> scrollTop el" and "0 \<le> clientHeight el"
    and "\<lfloor>scrollTop el / 100\<rfloor> \<le> int (length ps)"
  shows "totalHeight (VirtualProductList ps (handleScroll (Some el) (length ps) r))
           = int (length ps) * 100"
proof -
  let ?r = "handleScroll (Some el) (length ps) r"
  have s: "range_start ?r = \<lfloor>scrollTop el / 100\<rfloor>"
    by (simp add: handleScroll_def Let_def itemHeight_def)
  have s0: "0 \<le> range_start ?r"
    using assms(1) by (simp add: s)
  have sn: "range_start ?r \<le> int (length ps)"
    using assms(3) by (simp add: s)
  have se: "range_start ?r \<le> range_end ?r"
    using assms(2) sn by (rule range_start_le_end)
  have en: "range_end ?r \<le> int (length ps)"
    by (simp add: handleScroll_def Let_def)
  have "length (visibleProducts ps ?r) = nat (range_end ?r - range_start ?r)"
    unfolding visibleProducts_def using s0 se en by (rule slice_length)
  then show ?thesis
    using se by (simp add: totalHeight_list algebra_simps)
qed

text \<open>
  Beyond that range the start index is larger than \<open>N\<close>, no row is rendered, the bottom
  spacer is empty and the rendered height is the height of the top spacer alone.
\<close>

lemma total_height_beyond:
  assumes "0 \<le> clientHeight el" and "int (length ps) \<le> \<lfloor>scrollTop el / 100\<rfloor>"
  shows "totalHeight (VirtualProductList ps (handleScroll (Some el) (length ps) r))
           = \<lfloor>scrollTop el / 100\<rfloor> * 100"
proof -
  let ?r = "handleScroll (Some el) (length ps) r"
  have s: "range_start ?r = \<lfloor>scrollTop el / 100\<rfloor>"
    by (simp add: handleScroll_def Let_def itemHeight_def)
  define c where "c = \<lceil>of_int (clientHeight el) / (100 :: rat)\<rceil>"
  have "0 \<le> c"
    unfolding c_def using assms(1) by (simp add: le_ceiling_iff)
  then have "min (\<lfloor>scrollTop el / 100\<rfloor> + c + 5) (int (length ps)) = int (length ps)"
    using assms(2) by simp
  then have e: "range_end ?r = int (length ps)"
    by (simp add: handleScroll_def Let_def itemHeight_def c_def)
  have "visibleProducts ps ?r = []"
    unfolding visibleProducts_def using assms(2) by (simp add: slice_beyond s)
  then show ?thesis
    by (simp add: totalHeight_list s e)
qed

theorem total_height_constant_witness:
  "totalHeight (VirtualProductList
      [exampleProduct 1 10 4, exampleProduct 2 20 5, exampleProduct 3 30 3]
      (handleScroll (Some \<lparr>scrollTop = 150, clientHeight = 100\<rparr>) 3 initialRange))
    = 300"
  using total_height_constant [of "\<lparr>scrollTop = 150, clientHeight = 100\<rparr>"
      "[exampleProduct 1 10 4, exampleProduct 2 20 5, exampleProduct 3 30 3]" initialRange]
  by (simp add: numeral_3_eq_3)

text \<open>
  Three products and a scroll offset of 1000: the start index is 10, the end index is 3,
  no row is rendered, and the rendered height is 1000, not 300.
\<close>

theorem total_height_counterexample:
  "totalHeight (VirtualProductList
      [exampleProduct 1 10 4, exampleProduct 2 20 5, exampleProduct 3 30 3]
      (handleScroll (Some \<lparr>scrollTop = 1000, clientHeight = 400\<rparr>) 3 initialRange))
    \<noteq> 3 * 100"
  by (simp add: totalHeight_list visibleProducts_def slice_def handleScroll_def
      itemHeight_def Let_def)

text \<open>
  Claim C4, as the code has it. \<open>handleScroll\<close> does not clamp the start index: it is at
  most \<open>N\<close> exactly when the scroll offset is below \<open>(N + 1) * 100\<close>. The end index is
  at most \<open>N\<close> for every scroll offset and client height, so the height of the bottom
  spacer, \<open>(N - end) * 100\<close>, is never negative; and when the start index is \<open>N\<close> or
  more, the rendered slice is empty.
\<close>

theorem range_end_clamped:
  "range_end (handleScroll (Some el) n r) \<le> int n
   \<and> 0 \<le> (int n - range_end (handleScroll (Some el) n r)) * 100
   \<and> (range_start (handleScroll (Some el) n r) \<le> int n)
        = (scrollTop el < (of_nat n + 1) * 100)
   \<and> (int (length ps) \<le> range_start (handleScroll (Some el) (length ps) r)
        \<longrightarrow> visibleProducts ps (handleScroll (Some el) (length ps) r) = [])"
proof -
  have e: "range_end (handleScroll (Some el) n r) \<le> int n"
    by (simp add: handleScroll_def Let_def)
  have "(\<lfloor>scrollTop el / 100\<rfloor> \<le> int n) = (scrollTop el < (of_nat n + 1) * 100)"
    by (simp add: floor_le_iff pos_divide_less_eq)
  then have s: "(range_start (handleScroll (Some el) n r) \<le> int n)
      = (scrollTop el < (of_nat n + 1) * 100)"
    by (simp add: handleScroll_def Let_def itemHeight_def)
  show ?thesis
    using e s by (simp add: visibleProducts_def slice_beyond)
qed

theorem range_end_clamped_witness:
  "visibleProducts [exampleProduct 1 10 4, exampleProduct 2 20 5, exampleProduct 3 30 3]
     (handleScroll (Some \<lparr>scrollTop = 1000, clientHeight = 400\<rparr>) 3 initialRange) = []
   \<and> range_end (handleScroll (Some \<lparr>scrollTop = 1000, clientHeight = 400\<rparr>) 3 initialRange) \<le> 3"
  using range_end_clamped [of "\<lparr>scrollTop = 1000, clientHeight = 400\<rparr>" 3 initialRange
      "[exampleProduct 1 10 4, exampleProduct 2 20 5, exampleProduct 3 30 3]"]
  by (simp add: handleScroll_def itemHeight_def Let_def)

text \<open>Three products and a scroll offset of 1000: the start index is 10.\<close>

theorem range_start_counterexample:
  "\<not> range_start (handleScroll (Some \<lparr>scrollTop = 1000, clientHeight = 400\<rparr>) 3 initialRange) \<le> 3"
  by (simp add: handleScroll_def itemHeight_def Let_def)

section \<open>Properties of the analytics aggregator\<close>

lemma floor_rat_numeral:
  "\<lfloor>numeral a / numeral b :: rat\<rfloor> = numeral a div numeral b"
  using floor_divide_of_int_eq [of "numeral a" "numeral b", where ?'a = rat] by simp

lemma ceiling_rat_numeral:
  "\<lceil>numeral a / numeral b :: rat\<rceil> = - ((- numeral a) div numeral b)"
  using floor_divide_of_int_eq [of "- numeral a" "numeral b", where ?'a = rat]
  by (simp add: ceiling_def)

lemma bitlen_one: "bitlen 1 = 1"
  by (subst compute_bitlen) simp

lemma bitlen_Bit0: "bitlen (numeral (Num.Bit0 n)) = bitlen (numeral n) + 1"
  by (subst compute_bitlen) simp

lemma bitlen_Bit1: "bitlen (numeral (Num.Bit1 n)) = bitlen (numeral n) + 1"
  by (subst compute_bitlen) simp

lemmas eval_double = round_double_def ulp_def binade_def round_half_even_def
  floor_rat_numeral ceiling_rat_numeral bitlen_one bitlen_Bit0 bitlen_Bit1
  power_int_minus_divide

lemma round_half_even_of_int: "round_half_even (of_int m) = m"
  by (simp add: round_half_even_def)

lemma ulp_pos: "0 < ulp x"
  by (simp add: ulp_def)

lemma round_double_exact:
  assumes "x \<noteq> 0" and "\<bar>x\<bar> / ulp x = of_int m" and "\<bar>x\<bar> < 2 ^ 1024"
  shows "round_double x = Finite x"
proof -
  have r: "round_half_even (\<bar>x\<bar> / ulp x) = m"
    by (simp only: assms(2) round_half_even_of_int)
  have "of_int m * ulp x = \<bar>x\<bar>"
    using assms(2) ulp_pos [of x] by (simp add: field_simps)
  then have y: "of_int (round_half_even (\<bar>x\<bar> / ulp x)) * ulp x = \<bar>x\<bar>"
    by (simp only: r)
  show ?thesis
    unfolding round_double_def y using assms(1,3) by simp
qed

lemma round_double_of_int:
  assumes "0 \<le> k" and "k \<le> 2 ^ 53"
  shows "round_double (of_int k) = Finite (of_int k)"
proof (cases "k = 0")
  case True
  then show ?thesis by (simp add: round_double_def)
next
  case False
  with assms(1) have k: "0 < k" by simp
  define b where "b = bitlen k"
  from bitlen_bounds [OF k] have lo: "2 ^ nat (b - 1) \<le> k" and hi: "k < 2 ^ nat b"
    by (simp_all add: b_def)
  have b1: "1 \<le> b"
    using k bitlen_eq_zero_iff [of k] bitlen_nonneg [of k] by (simp add: b_def)
  from lo assms(2) have "(2::int) ^ nat (b - 1) \<le> 2 ^ 53"
    by (rule order_trans)
  then have "nat (b - 1) \<le> 53"
    by (rule power_le_imp_le_exp [rotated]) simp
  then have b54: "b \<le> 54"
    by simp
  have bin: "binade (of_int k) = b - 1"
    using k by (simp add: binade_def b_def)
  have u: "ulp (of_int k) = 2 powi (b - 53)"
    using b1 by (simp add: ulp_def bin)
  have "\<exists>m :: int. \<bar>of_int k :: rat\<bar> / ulp (of_int k) = of_int m"
  proof (cases "b = 54")
    case True
    with lo assms(2) have "k = 2 ^ 53"
      by simp
    have "ulp (of_int k) = 2"
      using u True by simp
    then have "\<bar>of_int k :: rat\<bar> / ulp (of_int k) = of_int k / 2"
      using k by simp
    also have "\<dots> = of_int (2 ^ 52)"
      using \<open>k = 2 ^ 53\<close> by simp
    finally show ?thesis ..
  next
    case False
    with b54 have "0 \<le> 53 - b"
      by simp
    then have "(2::rat) powi (b - 53) = 1 / 2 ^ nat (53 - b)"
      using power_int_minus_divide [of "2::rat" "53 - b"] by (simp add: power_int_def)
    then have "\<bar>of_int k :: rat\<bar> / ulp (of_int k) = of_int (k * 2 ^ nat (53 - b))"
      using k by (simp add: u)
    then show ?thesis ..
  qed
  then obtain m :: int where m: "\<bar>of_int k :: rat\<bar> / ulp (of_int k) = of_int m" ..
  have "(of_int k :: rat) \<le> 2 ^ 53"
    using assms(2) by (metis of_int_le_iff of_int_numeral of_int_power)
  also have "\<dots> < 2 ^ 1024"
    by simp
  finally have "\<bar>of_int k :: rat\<bar> < 2 ^ 1024"
    using k by simp
  with k m show ?thesis
    by (intro round_double_exact) simp_all
qed

lemma sum_list_map_nonneg:
  "\<forall>p \<in> set ps. 0 \<le> f p \<Longrightarrow> (0::int) \<le> sum_list (map f ps)"
  by (induction ps) auto

lemma sales_sum_exact:
  assumes "0 \<le> a" and "\<forall>p \<in> set ps. 0 \<le> sales p"
    and "a + sum_list (map sales ps) \<le> 2 ^ 53"
  shows "foldl (\<lambda>sum p. js_add sum (round_double (of_int (sales p)))) (Finite (of_int a)) ps
           = Finite (of_int (a + sum_list (map sales ps)))"
  using assms
proof (induction ps arbitrary: a)
  case Nil
  then show ?case by simp
next
  case (Cons p ps)
  have rest: "0 \<le> sum_list (map sales ps)"
    using Cons.prems(2) by (simp add: sum_list_map_nonneg)
  have p0: "0 \<le> sales p"
    using Cons.prems(2) by simp
  have "sales p \<le> 2 ^ 53"
    using Cons.prems(1,3) rest by simp
  with p0 have 1: "round_double (of_int (sales p)) = Finite (of_int (sales p))"
    by (rule round_double_of_int)
  have "a + sales p \<le> 2 ^ 53"
    using Cons.prems(3) rest by simp
  with Cons.prems(1) p0
  have 2: "round_double (of_int (a + sales p)) = Finite (of_int (a + sales p))"
    by (intro round_double_of_int) simp_all
  have "foldl (\<lambda>sum p. js_add sum (round_double (of_int (sales p)))) (Finite (of_int a)) (p # ps)
      = foldl (\<lambda>sum p. js_add sum (round_double (of_int (sales p))))
          (Finite (of_int (a + sales p))) ps"
    using 1 2 by simp
  also have "\<dots> = Finite (of_int ((a + sales p) + sum_list (map sales ps)))"
    using Cons.prems p0 by (intro Cons.IH) simp_all
  finally show ?case
    by (simp add: add.assoc)
qed

lemma toFixed1_closest:
  assumes "\<bar>x\<bar> < 10 ^ 21"
  shows "\<exists>n. toFixed1 (Finite x) = Tenths (x < 0) n
           \<and> \<bar>of_nat n / 10 - \<bar>x\<bar>\<bar> \<le> 1 / 20
           \<and> (\<forall>k :: nat. \<bar>of_nat n / 10 - \<bar>x\<bar>\<bar> \<le> \<bar>of_nat k / 10 - \<bar>x\<bar>\<bar>)
           \<and> (\<forall>k :: nat. \<bar>of_nat k / 10 - \<bar>x\<bar>\<bar> = \<bar>of_nat n / 10 - \<bar>x\<bar>\<bar> \<longrightarrow> k \<le> n)"
proof -
  define a where "a = \<bar>x\<bar>"
  define z :: int where "z = \<lfloor>a * 10 + 1 / 2\<rfloor>"
  have lo: "of_int z \<le> a * 10 + 1 / 2"
    unfolding z_def by (rule of_int_floor_le)
  have hi: "a * 10 + 1 / 2 < of_int z + 1"
    unfolding z_def by linarith
  have "0 \<le> z"
    unfolding z_def a_def by simp
  then have n: "(of_nat (nat z) :: rat) = of_int z"
    by simp
  have near: "\<bar>of_int z / 10 - a\<bar> \<le> 1 / 20"
    using lo hi unfolding abs_le_iff by linarith
  have best: "\<bar>of_int z / 10 - a\<bar> \<le> \<bar>of_nat k / 10 - a\<bar>
      \<and> (\<bar>of_nat k / 10 - a\<bar> = \<bar>of_int z / 10 - a\<bar> \<longrightarrow> k \<le> nat z)" for k :: nat
  proof -
    consider "int k \<le> z - 1" | "int k = z" | "z + 1 \<le> int k"
      by linarith
    then show ?thesis
    proof cases
      case 1
      then have "(of_int (int k) :: rat) \<le> of_int (z - 1)"
        by (simp only: of_int_le_iff)
      then have "(of_nat k :: rat) \<le> of_int z - 1"
        by simp
      moreover from 1 have "k \<le> nat z"
        by simp
      ultimately show ?thesis
        using lo hi by (simp add: abs_if)
    next
      case 2
      then have "(of_int (int k) :: rat) = of_int z"
        by (simp only:)
      then have "(of_nat k :: rat) = of_int z"
        by simp
      moreover from 2 have "k \<le> nat z"
        by simp
      ultimately show ?thesis
        by simp
    next
      case 3
      then have "(of_int (z + 1) :: rat) \<le> of_int (int k)"
        by (simp only: of_int_le_iff)
      then have "(of_int z :: rat) + 1 \<le> of_nat k"
        by simp
      then show ?thesis
        using lo hi by (simp add: abs_if)
    qed
  qed
  have "toFixed1 (Finite x) = Tenths (x < 0) (nat z)"
    using assms by (simp add: z_def a_def)
  moreover have "\<bar>of_nat (nat z) / 10 - \<bar>x\<bar>\<bar> \<le> 1 / 20"
    using near by (simp only: n a_def)
  moreover have "\<forall>k :: nat. \<bar>of_nat (nat z) / 10 - \<bar>x\<bar>\<bar> \<le> \<bar>of_nat k / 10 - \<bar>x\<bar>\<bar>"
    using best by (simp only: n a_def) blast
  moreover have "\<forall>k :: nat. \<bar>of_nat k / 10 - \<bar>x\<bar>\<bar> = \<bar>of_nat (nat z) / 10 - \<bar>x\<bar>\<bar> \<longrightarrow> k \<le> nat z"
    using best by (simp only: n a_def) blast
  ultimately show ?thesis
    by blast
qed

lemma round_half_even_le:
  assumes "y \<le> of_int z"
  shows "round_half_even y \<le> z"
proof -
  have f: "\<lfloor>y\<rfloor> \<le> z"
    using assms by (simp add: floor_le_iff)
  have "\<lfloor>y\<rfloor> + 1 \<le> z" if "1 / 2 \<le> y - of_int \<lfloor>y\<rfloor>"
  proof -
    from that assms have "(of_int \<lfloor>y\<rfloor> :: rat) < of_int z"
      by linarith
    then have "\<lfloor>y\<rfloor> < z"
      by (simp only: of_int_less_iff)
    then show ?thesis by simp
  qed
  with f show ?thesis
    by (auto simp: round_half_even_def not_less)
qed

lemma round_half_even_nonneg:
  assumes "0 \<le> y"
  shows "0 \<le> round_half_even y"
proof -
  from assms have "0 \<le> \<lfloor>y\<rfloor>"
    by simp
  then show ?thesis
    by (auto simp: round_half_even_def)
qed

lemma binade_le:
  assumes "0 < x" and "x \<le> 2 ^ 53"
  shows "binade x \<le> 53" and "binade x = 53 \<Longrightarrow> x = 2 ^ 53"
proof -
  have "binade x \<le> 53 \<and> (binade x = 53 \<longrightarrow> x = 2 ^ 53)"
  proof (cases "1 \<le> x")
    case False
    then have "binade x = - bitlen (\<lceil>1 / \<bar>x\<bar>\<rceil> - 1)"
      using assms(1) by (simp add: binade_def)
    then have "binade x \<le> 0"
      using bitlen_nonneg [of "\<lceil>1 / \<bar>x\<bar>\<rceil> - 1"] by simp
    then show ?thesis by simp
  next
    case True
    define n where "n = \<lfloor>x\<rfloor>"
    have n1: "0 < n"
      using True by (simp add: n_def)
    have nx: "of_int n \<le> x"
      by (simp add: n_def)
    have "\<lfloor>x\<rfloor> \<le> \<lfloor>2 ^ 53 :: rat\<rfloor>"
      using assms(2) by (rule floor_mono)
    then have n53: "n \<le> 2 ^ 53"
      by (simp add: n_def)
    define b where "b = bitlen n"
    from bitlen_bounds [OF n1] have lo: "2 ^ nat (b - 1) \<le> n"
      by (simp add: b_def)
    have b1: "1 \<le> b"
      using n1 bitlen_eq_zero_iff [of n] bitlen_nonneg [of n] by (simp add: b_def)
    from lo n53 have "(2::int) ^ nat (b - 1) \<le> 2 ^ 53"
      by (rule order_trans)
    then have "nat (b - 1) \<le> 53"
      by (rule power_le_imp_le_exp [rotated]) simp
    then have b54: "b \<le> 54"
      by simp
    have bin: "binade x = b - 1"
      using True assms(1) by (simp add: binade_def b_def n_def)
    have "x = 2 ^ 53" if "b = 54"
    proof -
      from lo that have "2 ^ 53 \<le> n"
        by simp
      then have "(of_int (2 ^ 53) :: rat) \<le> of_int n"
        by (simp only: of_int_le_iff)
      with nx assms(2) show ?thesis
        by simp
    qed
    with b54 bin show ?thesis
      by auto
  qed
  then show "binade x \<le> 53" and "binade x = 53 \<Longrightarrow> x = 2 ^ 53"
    by simp_all
qed

lemma ulp_divides:
  assumes "0 < x" and "x \<le> of_int k" and "k \<le> 2 ^ 53"
  shows "\<exists>z :: int. of_int k / ulp x = of_int z"
proof -
  have "(of_int k :: rat) \<le> 2 ^ 53"
    using assms(3) by (metis of_int_le_iff of_int_numeral of_int_power)
  with assms(2) have x53: "x \<le> 2 ^ 53"
    by simp
  define e where "e = max (binade x) (- 1022)"
  have u: "ulp x = 2 powi (e - 52)"
    by (simp add: ulp_def e_def)
  have e53: "e \<le> 53"
    using binade_le(1) [OF assms(1) x53] by (simp add: e_def)
  show ?thesis
  proof (cases "e = 53")
    case True
    then have "binade x = 53"
      by (simp add: e_def max_def split: if_splits)
    then have "x = 2 ^ 53"
      by (rule binade_le(2) [OF assms(1) x53])
    with assms(2) \<open>(of_int k :: rat) \<le> 2 ^ 53\<close> have "(of_int k :: rat) = of_int (2 ^ 53)"
      by simp
    then have "k = 2 ^ 53"
      by (simp only: of_int_eq_iff)
    then have "(of_int k :: rat) / ulp x = of_int (2 ^ 52)"
      by (simp add: u True)
    then show ?thesis ..
  next
    case False
    with e53 have "0 \<le> 52 - e"
      by simp
    then have "(2::rat) powi (e - 52) = 1 / 2 ^ nat (52 - e)"
      using power_int_minus_divide [of "2::rat" "52 - e"] by (simp add: power_int_def)
    then have "(of_int k :: rat) / ulp x = of_int (k * 2 ^ nat (52 - e))"
      by (simp add: u)
    then show ?thesis ..
  qed
qed

lemma round_double_bounded:
  assumes "0 \<le> x" and "x \<le> of_int k" and "k \<le> 2 ^ 53"
  shows "\<exists>y. round_double x = Finite y \<and> 0 \<le> y \<and> y \<le> of_int k"
proof (cases "x = 0")
  case True
  with assms(2) show ?thesis
    by (simp add: round_double_def)
next
  case False
  with assms(1) have x: "0 < x"
    by simp
  define m where "m = round_half_even (\<bar>x\<bar> / ulp x)"
  from ulp_divides [OF x assms(2,3)] obtain z :: int where z: "of_int k / ulp x = of_int z" ..
  have "\<bar>x\<bar> / ulp x \<le> of_int k / ulp x"
    using assms(2) x ulp_pos [of x] by (simp add: divide_right_mono)
  then have "m \<le> z"
    unfolding m_def z by (rule round_half_even_le)
  then have "(of_int m :: rat) \<le> of_int z"
    by (simp only: of_int_le_iff)
  then have "of_int m * ulp x \<le> of_int z * ulp x"
    using ulp_pos [of x] by (simp add: mult_right_mono)
  also have "of_int z * ulp x = of_int k"
    using z ulp_pos [of x] by (simp add: field_simps)
  finally have le: "of_int m * ulp x \<le> of_int k" .
  have "0 \<le> \<bar>x\<bar> / ulp x"
    using ulp_pos [of x] by simp
  then have "0 \<le> m"
    unfolding m_def by (rule round_half_even_nonneg)
  then have ge: "0 \<le> of_int m * ulp x"
    using ulp_pos [of x] by simp
  have "(of_int k :: rat) \<le> 2 ^ 53"
    using assms(3) by (metis of_int_le_iff of_int_numeral of_int_power)
  also have "\<dots> < 2 ^ 1024"
    by simp
  finally have "of_int m * ulp x < 2 ^ 1024"
    using le by simp
  then have "round_double x = Finite (of_int m * ulp x)"
    using x by (simp add: round_double_def m_def not_le)
  with le ge show ?thesis
    by simp
qed

lemma rating_sum_bounded:
  assumes "0 \<le> s" and "s \<le> of_int (5 * j)" and "0 \<le> j"
    and "\<forall>p \<in> set ps. 0 \<le> rating p \<and> rating p \<le> 5"
    and "5 * (j + int (length ps)) \<le> 2 ^ 53"
  shows "\<exists>t. foldl (\<lambda>sum p. js_add sum (parseFloat (rating p))) (Finite s) ps = Finite t
           \<and> 0 \<le> t \<and> t \<le> of_int (5 * (j + int (length ps)))"
  using assms
proof (induction ps arbitrary: s j)
  case Nil
  then show ?case by simp
next
  case (Cons p ps)
  have "0 \<le> rating p" and "rating p \<le> of_int 5"
    using Cons.prems(4) by simp_all
  then have "\<exists>y. round_double (rating p) = Finite y \<and> 0 \<le> y \<and> y \<le> of_int 5"
    by (rule round_double_bounded) simp
  then obtain y where y: "parseFloat (rating p) = Finite y" "0 \<le> y" "y \<le> 5"
    by (auto simp: parseFloat_def)
  have "0 \<le> s + y" and "s + y \<le> of_int (5 * (j + 1))"
    using Cons.prems(1,2) y(2,3) by simp_all
  moreover have "5 * (j + 1) \<le> 2 ^ 53"
    using Cons.prems(5) by simp
  ultimately have "\<exists>t. round_double (s + y) = Finite t \<and> 0 \<le> t \<and> t \<le> of_int (5 * (j + 1))"
    by (rule round_double_bounded)
  then obtain t where t: "round_double (s + y) = Finite t" "0 \<le> t" "t \<le> of_int (5 * (j + 1))"
    by blast
  have "\<exists>t'. foldl (\<lambda>sum p. js_add sum (parseFloat (rating p))) (Finite t) ps = Finite t'
           \<and> 0 \<le> t' \<and> t' \<le> of_int (5 * ((j + 1) + int (length ps)))"
    using t(2,3) Cons.prems(3,4,5) by (intro Cons.IH) simp_all
  then obtain t' where t':
    "foldl (\<lambda>sum p. js_add sum (parseFloat (rating p))) (Finite t) ps = Finite t'"
    "0 \<le> t'" "t' \<le> of_int (5 * ((j + 1) + int (length ps)))"
    by blast
  have "foldl (\<lambda>sum p. js_add sum (parseFloat (rating p))) (Finite s) (p # ps) = Finite t'"
    using y(1) t(1) t'(1) by simp
  moreover have "t' \<le> of_int (5 * (j + int (length (p # ps))))"
    using t'(3) by (simp add: algebra_simps)
  ultimately show ?case
    using t'(2) by blast
qed

lemma analytics_rating_range:
  assumes "ps \<noteq> []" and "\<forall>p \<in> set ps. 0 \<le> rating p \<and> rating p \<le> 5"
    and "5 * int (length ps) \<le> 2 ^ 53"
  shows "\<exists>n \<le> 50. map_option averageRating (analytics ps) = Some (Tenths False n)"
proof -
  have "\<exists>t. foldl (\<lambda>sum p. js_add sum (parseFloat (rating p))) (Finite 0) ps = Finite t
           \<and> 0 \<le> t \<and> t \<le> of_int (5 * (0 + int (length ps)))"
    using assms(2,3) by (intro rating_sum_bounded) simp_all
  then obtain t where t: "foldl (\<lambda>sum p. js_add sum (parseFloat (rating p))) (Finite 0) ps = Finite t"
    "0 \<le> t" "t \<le> 5 * of_nat (length ps)"
    by auto
  have n: "(0::rat) < of_nat (length ps)"
    using assms(1) by simp
  have "0 \<le> t / of_nat (length ps)"
    using t(2) n by simp
  moreover have "t / of_nat (length ps) \<le> of_int 5"
    using t(3) n by (simp add: pos_divide_le_eq)
  ultimately have "\<exists>y. round_double (t / of_nat (length ps)) = Finite y \<and> 0 \<le> y \<and> y \<le> of_int 5"
    by (rule round_double_bounded) simp
  then obtain y where y: "round_double (t / of_nat (length ps)) = Finite y" "0 \<le> y" "y \<le> 5"
    by auto
  have "nat \<lfloor>\<bar>y\<bar> * 10 + 1 / 2\<rfloor> \<le> 50"
    using y(2,3) by (simp add: nat_le_iff floor_le_iff)
  moreover have "map_option averageRating (analytics ps)
      = Some (Tenths False (nat \<lfloor>\<bar>y\<bar> * 10 + 1 / 2\<rfloor>))"
    using assms(1) t(1) y by (simp add: analytics_def)
  ultimately show ?thesis
    by blast
qed

lemma js_divide_count:
  "n \<noteq> 0 \<Longrightarrow>
     js_divide s (Finite (of_nat n))
       = (case s of Finite a \<Rightarrow> round_double (a / of_nat n) | other \<Rightarrow> other)"
  by (cases s) simp_all

lemma analytics_nonempty:
  assumes "ps \<noteq> []"
  shows "analytics ps = Some
     \<lparr>totalProducts = length ps,
      totalSales = foldl js_add (Finite 0) (map (\<lambda>p. round_double (of_int (sales p))) ps),
      averageRating =
        toFixed1
          (case foldl js_add (Finite 0) (map (\<lambda>p. parseFloat (rating p)) ps) of
             Finite a \<Rightarrow> round_double (a / of_nat (length ps))
           | other \<Rightarrow> other),
      outOfStock = card {i. i < length ps \<and> stock (ps ! i) = 0}\<rparr>"
  using assms
  by (simp add: analytics_def foldl_map js_divide_count length_filter_conv_card)

lemma analytics_sales_exact:
  assumes "ps \<noteq> []" and "\<forall>p \<in> set ps. 0 \<le> sales p"
    and "sum_list (map sales ps) \<le> 2 ^ 53"
  shows "map_option totalSales (analytics ps) = Some (Finite (of_int (sum_list (map sales ps))))"
  using assms(1) sales_sum_exact [of 0 ps] assms(2,3)
  by (simp add: analytics_def)

lemma analytics_example:
  assumes "map sales ps = [10, 20, 30]" and "map rating ps = [4, 5, 3]"
  shows "\<exists>r. analytics ps = Some r \<and> totalSales r = Finite 60 \<and> averageRating r = Tenths False 40"
proof -
  from assms(1) obtain a b c where ps: "ps = [a, b, c]"
    by (auto simp: map_eq_Cons_conv)
  have i: "round_double (of_int k) = Finite (of_int k)" if "0 \<le> k" "k \<le> 100" for k
    using that by (intro round_double_of_int) simp_all
  have r4: "round_double 4 = Finite 4" and r9: "round_double 9 = Finite 9"
    and r12: "round_double 12 = Finite 12" and r5: "round_double 5 = Finite 5"
    and r3: "round_double 3 = Finite 3" and r10: "round_double 10 = Finite 10"
    and r20: "round_double 20 = Finite 20" and r30: "round_double 30 = Finite 30"
    and r60: "round_double 60 = Finite 60"
    using i [of 4] i [of 9] i [of 12] i [of 5] i [of 3] i [of 10] i [of 20] i [of 30] i [of 60]
    by simp_all
  show ?thesis
    using assms
    by (simp add: ps analytics_def parseFloat_def r4 r9 r12 r5 r3 r10 r20 r30 r60
        floor_rat_numeral)
qed

lemma analytics_rounding_example:
  assumes "map rating ps = [3 / 10, 4 / 10]"
  shows "\<exists>r. analytics ps = Some r \<and> averageRating r = Tenths False 3"
proof -
  from assms obtain a b where ps: "ps = [a, b]" and a: "rating a = 3 / 10" and b: "rating b = 4 / 10"
    by (auto simp: map_eq_Cons_conv)
  have s: "foldl js_add (Finite 0) (map (\<lambda>p. parseFloat (rating p)) ps)
      = Finite (3152519739159347 / 4503599627370496)"
    by (simp add: ps a b parseFloat_def eval_double)
  have m: "round_double (3152519739159347 / 4503599627370496 / of_nat (length ps))
      = Finite (3152519739159347 / 9007199254740992)"
    by (simp add: ps eval_double)
  have ne: "ps \<noteq> []"
    by (simp add: ps)
  have "averageRating (the (analytics ps))
      = toFixed1
          (case foldl js_add (Finite 0) (map (\<lambda>p. parseFloat (rating p)) ps) of
             Finite a \<Rightarrow> round_double (a / of_nat (length ps))
           | other \<Rightarrow> other)"
    by (simp add: analytics_nonempty [OF ne])
  also have "\<dots> = toFixed1 (Finite (3152519739159347 / 9007199254740992))"
    by (simp only: s m number.case)
  also have "\<dots> = Tenths False 3"
    by (simp add: floor_rat_numeral)
  finally have "averageRating (the (analytics ps)) = Tenths False 3" .
  moreover have "analytics ps \<noteq> None"
    by (simp add: ps analytics_def)
  ultimately show ?thesis
    by auto
qed

text \<open>
  Claim C7, as the code has it. The analytics are a function of the collection alone. On
  the empty collection the result is the defined value \<open>null\<close>, and no division takes
  place. On any other collection the result holds the number of products; the sum of
  their sales, added from 0 from left to right in double precision, which is the exact
  sum when the sales are not negative and total at most \<open>2^53\<close>; the text of
  \<open>toFixed(1)\<close> for the mean of their ratings as the doubles give it (the parsed
  ratings added from 0 from left to right, the sum divided by the number of products,
  which is not zero, each operation rounded to the nearest double); and the number of
  products whose stock is 0. For ratings between 0 and 5 this text is a decimal between
  0.0 and 5.0, never that of \<open>NaN\<close> or an infinity. \<open>toFixed(1)\<close> gives the tenth
  nearest to the double it is applied to, the larger one of two. For three products with
  sales 10, 20, 30 and ratings 4.0, 5.0, 3.0 the total of the sales is 60 and the average
  rating is 4.0; for two products with ratings 0.3 and 0.4 the average rating is 0.3.
\<close>

theorem analytics_summary:
  "analytics [] = None
   \<and> (ps \<noteq> [] \<longrightarrow>
        (\<exists>r. analytics ps = Some r
           \<and> totalProducts r = length ps
           \<and> totalSales r
               = foldl js_add (Finite 0) (map (\<lambda>p. round_double (of_int (sales p))) ps)
           \<and> averageRating r
               = toFixed1
                   (case foldl js_add (Finite 0) (map (\<lambda>p. parseFloat (rating p)) ps) of
                      Finite a \<Rightarrow> round_double (a / of_nat (length ps))
                    | other \<Rightarrow> other)
           \<and> outOfStock r = card {i. i < length ps \<and> stock (ps ! i) = 0}))
   \<and> (ps \<noteq> [] \<and> (\<forall>p \<in> set ps. 0 \<le> sales p) \<and> sum_list (map sales ps) \<le> 2 ^ 53 \<longrightarrow>
        map_option totalSales (analytics ps) = Some (Finite (of_int (sum_list (map sales ps)))))
   \<and> (ps \<noteq> [] \<and> (\<forall>p \<in> set ps. 0 \<le> rating p \<and> rating p \<le> 5)
         \<and> 5 * int (length ps) \<le> 2 ^ 53 \<longrightarrow>
        (\<exists>n \<le> 50. map_option averageRating (analytics ps) = Some (Tenths False n)))
   \<and> (\<bar>x\<bar> < 10 ^ 21 \<longrightarrow>
        (\<exists>n. toFixed1 (Finite x) = Tenths (x < 0) n
           \<and> \<bar>of_nat n / 10 - \<bar>x\<bar>\<bar> \<le> 1 / 20
           \<and> (\<forall>k :: nat. \<bar>of_nat n / 10 - \<bar>x\<bar>\<bar> \<le> \<bar>of_nat k / 10 - \<bar>x\<bar>\<bar>)
           \<and> (\<forall>k :: nat. \<bar>of_nat k / 10 - \<bar>x\<bar>\<bar> = \<bar>of_nat n / 10 - \<bar>x\<bar>\<bar> \<longrightarrow> k \<le> n)))
   \<and> (map sales ps = [10, 20, 30] \<and> map rating ps = [4, 5, 3] \<longrightarrow>
        (\<exists>r. analytics ps = Some r \<and> totalSales r = Finite 60
           \<and> averageRating r = Tenths False 40))
   \<and> (map rating ps = [3 / 10, 4 / 10] \<longrightarrow>
        (\<exists>r. analytics ps = Some r \<and> averageRating r = Tenths False 3))"
proof (intro conjI impI)
  show "analytics [] = None"
    by (simp add: analytics_def)
next
  assume "ps \<noteq> []"
  then show "\<exists>r. analytics ps = Some r
           \<and> totalProducts r = length ps
           \<and> totalSales r
               = foldl js_add (Finite 0) (map (\<lambda>p. round_double (of_int (sales p))) ps)
           \<and> averageRating r
               = toFixed1
                   (case foldl js_add (Finite 0) (map (\<lambda>p. parseFloat (rating p)) ps) of
                      Finite a \<Rightarrow> round_double (a / of_nat (length ps))
                    | other \<Rightarrow> other)
           \<and> outOfStock r = card {i. i < length ps \<and> stock (ps ! i) = 0}"
    by (simp add: analytics_nonempty)
next
  assume "ps \<noteq> [] \<and> (\<forall>p \<in> set ps. 0 \<le> sales p) \<and> sum_list (map sales ps) \<le> 2 ^ 53"
  then show "map_option totalSales (analytics ps)
      = Some (Finite (of_int (sum_list (map sales ps))))"
    by (intro analytics_sales_exact) simp_all
next
  assume "ps \<noteq> [] \<and> (\<forall>p \<in> set ps. 0 \<le> rating p \<and> rating p \<le> 5)
      \<and> 5 * int (length ps) \<le> 2 ^ 53"
  then show "\<exists>n \<le> 50. map_option averageRating (analytics ps) = Some (Tenths False n)"
    by (intro analytics_rating_range) simp_all
next
  assume "\<bar>x\<bar> < 10 ^ 21"
  then show "\<exists>n. toFixed1 (Finite x) = Tenths (x < 0) n
           \<and> \<bar>of_nat n / 10 - \<bar>x\<bar>\<bar> \<le> 1 / 20
           \<and> (\<forall>k :: nat. \<bar>of_nat n / 10 - \<bar>x\<bar>\<bar> \<le> \<bar>of_nat k / 10 - \<bar>x\<bar>\<bar>)
           \<and> (\<forall>k :: nat. \<bar>of_nat k / 10 - \<bar>x\<bar>\<bar> = \<bar>of_nat n / 10 - \<bar>x\<bar>\<bar> \<longrightarrow> k \<le> n)"
    by (rule toFixed1_closest)
next
  assume "map sales ps = [10, 20, 30] \<and> map rating ps = [4, 5, 3]"
  then show "\<exists>r. analytics ps = Some r \<and> totalSales r = Finite 60
      \<and> averageRating r = Tenths False 40"
    by (intro analytics_example) simp_all
next
  assume "map rating ps = [3 / 10, 4 / 10]"
  then show "\<exists>r. analytics ps = Some r \<and> averageRating r = Tenths False 3"
    by (rule analytics_rounding_example)
qed

theorem analytics_summary_witness:
  "map_option totalSales
      (analytics [exampleProduct 1 10 4, exampleProduct 2 20 5, exampleProduct 3 30 3])
     = Some (Finite 60)
   \<and> map_option averageRating
      (analytics [exampleProduct 1 10 4, exampleProduct 2 20 5, exampleProduct 3 30 3])
     = Some (Tenths False 40)
   \<and> map_option totalProducts
      (analytics [exampleProduct 1 10 4, exampleProduct 2 20 5, exampleProduct 3 30 3])
     = Some 3
   \<and> map_option averageRating
      (analytics [exampleProduct 1 10 (3 / 10), exampleProduct 2 20 (4 / 10)])
     = Some (Tenths False 3)
   \<and> toFixed1 (Finite (7 / 20)) = Tenths False 4"
  using analytics_summary
    [of "[exampleProduct 1 10 4, exampleProduct 2 20 5, exampleProduct 3 30 3]" "7 / 20"]
    analytics_summary
    [of "[exampleProduct 1 10 (3 / 10), exampleProduct 2 20 (4 / 10)]" "7 / 20"]
  by (auto simp: exampleProduct_def floor_rat_numeral)

text \<open>
  Two products with the ratings 0.3 and 0.4. The mean of the ratings is 0.35, which
  rounded to one decimal is 0.4, and the mean of the two doubles that \<open>parseFloat\<close>
  returns is above 0.35 and rounds to 0.4 as well. The code adds the doubles to the
  double 0.7 and halves it to the double below 0.35, so that its average rating is the
  text 0.3.
\<close>

theorem analytics_mean_counterexample:
  "map_option averageRating
      (analytics [exampleProduct 1 10 (3 / 10), exampleProduct 2 20 (4 / 10)])
     \<noteq> Some (toFixed1 (Finite ((3 / 10 + 4 / 10) / 2)))
   \<and> map_option averageRating
      (analytics [exampleProduct 1 10 (3 / 10), exampleProduct 2 20 (4 / 10)])
     = Some (Tenths False 3)
   \<and> toFixed1 (Finite ((3 / 10 + 4 / 10) / 2)) = Tenths False 4
   \<and> parseFloat (3 / 10) = Finite (5404319552844595 / 18014398509481984)
   \<and> parseFloat (4 / 10) = Finite (3602879701896397 / 9007199254740992)
   \<and> toFixed1 (Finite ((5404319552844595 / 18014398509481984
         + 3602879701896397 / 9007199254740992) / 2)) = Tenths False 4"
  by (simp add: analytics_def exampleProduct_def parseFloat_def eval_double)

section \<open>Properties of the simulated load\<close>

lemma fetch_run_no_elapsed:
  "Elapsed \<notin> set es \<Longrightarrow>
     fetch_run now mock f es = f\<lparr>aborted := aborted f \<or> Abort \<in> set es\<rparr>"
proof (induction es arbitrary: f)
  case Nil
  then show ?case by (simp add: fetch_run_def)
next
  case (Cons e es)
  then show ?case
    by (cases e) (auto simp: fetch_run_def)
qed

lemma fetch_run_aborted:
  "aborted f \<Longrightarrow>
     fetch_run now mock f es = f\<lparr>waiting := waiting f \<and> Elapsed \<notin> set es\<rparr>"
proof (induction es arbitrary: f)
  case Nil
  then show ?case by (simp add: fetch_run_def)
next
  case (Cons e es)
  then show ?case
    by (cases e) (auto simp: fetch_run_def)
qed

lemma fetch_run_append:
  "fetch_run now mock f (es @ es') = fetch_run now mock (fetch_run now mock f es) es'"
  by (simp add: fetch_run_def)

lemma fetch_run_cancelled:
  assumes "Elapsed \<notin> set pre"
  shows "fetch_run now mock (fetchProducts now s) (pre @ Abort # post)
     = \<lparr>store = s\<lparr>loading := True\<rparr>, aborted = True, waiting = (Elapsed \<notin> set post),
        dispatched = [SET_LOADING True]\<rparr>"
proof -
  have "fetch_run now mock (fetchProducts now s) pre
      = (fetchProducts now s)\<lparr>aborted := Abort \<in> set pre\<rparr>"
    using assms by (simp add: fetch_run_no_elapsed fetchProducts_def dispatch_def)
  then have "fetch_run now mock (fetchProducts now s) (pre @ [Abort])
      = (fetchProducts now s)\<lparr>aborted := True\<rparr>"
    by (simp add: fetch_run_append) (simp add: fetch_run_def)
  then have "fetch_run now mock (fetchProducts now s) ((pre @ [Abort]) @ post)
      = fetch_run now mock ((fetchProducts now s)\<lparr>aborted := True\<rparr>) post"
    by (simp only: fetch_run_append)
  then show ?thesis
    by (simp add: fetch_run_aborted) (simp add: fetchProducts_def dispatch_def)
qed

text \<open>
  Claim C9. When the load is cancelled before its delay has elapsed, whatever happens
  afterwards, the completion is suppressed: the only action ever dispatched is
  \<open>SET_LOADING\<close>, no \<open>SET_PRODUCTS\<close>, and the store is the one the load started from
  with the loading flag true; started from the initial store, the collection is still
  empty and the loading flag is true.
\<close>

theorem cancelled_load_suppressed:
  assumes "Elapsed \<notin> set pre"
  shows "dispatched (fetch_run now mock (fetchProducts now s) (pre @ Abort # post))
           = [SET_LOADING True]
    \<and> store (fetch_run now mock (fetchProducts now s) (pre @ Abort # post))
           = s\<lparr>loading := True\<rparr>
    \<and> products (store (fetch_run now mock (fetchProducts now initialState) (pre @ Abort # post)))
           = []
    \<and> loading (store (fetch_run now mock (fetchProducts now initialState) (pre @ Abort # post)))
           = True"
  using assms by (simp add: fetch_run_cancelled initialState_def)

theorem cancelled_load_suppressed_witness:
  "dispatched (fetch_run 0 [exampleProduct 1 10 4] (fetchProducts 0 initialState)
       ([] @ Abort # [Elapsed])) = [SET_LOADING True]
   \<and> products (store (fetch_run 0 [exampleProduct 1 10 4] (fetchProducts 0 initialState)
       ([] @ Abort # [Elapsed]))) = []
   \<and> loading (store (fetch_run 0 [exampleProduct 1 10 4] (fetchProducts 0 initialState)
       ([] @ Abort # [Elapsed]))) = True"
  using cancelled_load_suppressed [of "[]" 0 "[exampleProduct 1 10 4]" initialState "[Elapsed]"]
  by (simp add: initialState_def)

text \<open>
  For comparison, a load that is not cancelled commits the generated collection when its
  delay elapses.
\<close>

lemma uncancelled_load_commits:
  "store (fetch_run now mock (fetchProducts now s) [Elapsed])
     = s\<lparr>products := mock, loading := False\<rparr>"
  by (simp add: fetch_run_def fetchProducts_def dispatch_def)

section \<open>Properties of the notification queue\<close>

lemma callbacks_notifications:
  "notifications (foldl (\<lambda>s' t. timeoutCallback (snd t) s') s ts)
     = filter (\<lambda>m. nid m \<notin> snd ` set ts) (notifications s)"
proof (induction ts arbitrary: s)
  case Nil
  then show ?case by simp
next
  case (Cons t ts)
  have "notifications (foldl (\<lambda>s' t. timeoutCallback (snd t) s') s (t # ts))
      = filter (\<lambda>m. nid m \<notin> snd ` set ts) (notifications (timeoutCallback (snd t) s))"
    by (simp add: Cons.IH)
  also have "\<dots> = filter (\<lambda>m. nid m \<notin> snd ` set (t # ts)) (notifications s)"
    by (auto simp: timeoutCallback_def intro: filter_cong)
  finally show ?case .
qed

lemma runTimers_notifications:
  "notifications (runTimers now s)
     = filter (\<lambda>m. nid m \<notin> snd ` {t \<in> set (timers s). fst t \<le> now}) (notifications s)"
  by (simp add: runTimers_def callbacks_notifications)

lemma runTimers_timers:
  "timers (runTimers now s) = filter (\<lambda>t. \<not> fst t \<le> now) (timers s)"
  by (simp add: runTimers_def)

lemma due_timer_iff:
  assumes "timers_pending s" and "m \<in> set (notifications s)"
  shows "(nid m \<in> snd ` {t \<in> set (timers s). fst t \<le> T}) = (nid m + 5000 \<le> T)"
proof
  assume "nid m \<in> snd ` {t \<in> set (timers s). fst t \<le> T}"
  then obtain t where t: "t \<in> set (timers s)" "fst t \<le> T" "snd t = nid m"
    by auto
  from assms(1) t(1) have "fst t = snd t + 5000"
    by (simp add: timers_pending_def)
  with t show "nid m + 5000 \<le> T"
    by simp
next
  assume d: "nid m + 5000 \<le> T"
  from assms have "(nid m + 5000, nid m) \<in> set (timers s)"
    by (simp add: timers_pending_def)
  with d show "nid m \<in> snd ` {t \<in> set (timers s). fst t \<le> T}"
    by force
qed

lemma runTimers_exact:
  assumes "timers_pending s"
  shows "notifications (runTimers T s) = filter (\<lambda>m. T < nid m + 5000) (notifications s)"
  unfolding runTimers_notifications
  by (rule filter_cong) (auto simp: due_timer_iff [OF assms])

lemma timers_pending_step:
  assumes "timers_pending s"
  shows "timers_pending (notification_step s e)"
proof (cases e)
  case (Enqueue now n)
  then show ?thesis
    using assms by (auto simp: timers_pending_def addNotification_def)
next
  case (Dismiss i)
  then show ?thesis
    using assms by (auto simp: timers_pending_def removeNotification_def)
next
  case (Tick now)
  have "\<forall>m \<in> set (notifications (runTimers now s)).
      (nid m + 5000, nid m) \<in> set (timers (runTimers now s))"
    using assms by (auto simp: runTimers_exact runTimers_timers timers_pending_def)
  moreover have "\<forall>t \<in> set (timers (runTimers now s)). fst t = snd t + 5000"
    using assms by (auto simp: runTimers_timers timers_pending_def)
  ultimately show ?thesis
    by (simp add: Tick timers_pending_def)
qed

lemma notification_run_snoc:
  "notification_run s (es @ [e]) = notification_step (notification_run s es) e"
  by (simp add: notification_run_def)

lemma timers_pending_run:
  "timers_pending (notification_run noNotifications es)"
proof (induction es rule: rev_induct)
  case Nil
  then show ?case
    by (simp add: notification_run_def timers_pending_def noNotifications_def)
next
  case (snoc e es)
  then show ?case
    by (simp add: notification_run_snoc timers_pending_step)
qed

lemma enqueued_snoc:
  "enqueued (es @ [e]) = enqueued es @ (case e of Enqueue now n \<Rightarrow> [n\<lparr>nid := now\<rparr>] | _ \<Rightarrow> [])"
  by (induction es rule: enqueued.induct) (auto split: notification_event.splits)

lemma insertion_order:
  "subseq (notifications (notification_run noNotifications es)) (enqueued es)"
proof (induction es rule: rev_induct)
  case Nil
  then show ?case
    by (simp add: notification_run_def noNotifications_def)
next
  case (snoc e es)
  show ?case
  proof (cases e)
    case (Enqueue now n)
    then show ?thesis
      using snoc by (simp add: notification_run_snoc enqueued_snoc addNotification_def list_emb_append_mono)
  next
    case (Dismiss i)
    have "subseq (filter (\<lambda>n. nid n \<noteq> i) (notifications (notification_run noNotifications es)))
        (notifications (notification_run noNotifications es))"
      by (rule subseq_filter_left)
    from subseq_order.trans [OF this snoc] show ?thesis
      by (simp add: Dismiss notification_run_snoc enqueued_snoc removeNotification_def)
  next
    case (Tick now)
    have "subseq (notifications (runTimers now (notification_run noNotifications es)))
        (notifications (notification_run noNotifications es))"
      by (simp add: runTimers_notifications)
    from subseq_order.trans [OF this snoc] show ?thesis
      by (simp add: Tick notification_run_snoc enqueued_snoc)
  qed
qed

text \<open>
  Claim C8, as the code has it. A message is enqueued at the end of the queue with the
  clock reading \<open>Date.now()\<close> as its identifier, which differs from the identifiers of
  the messages in the queue exactly when none of them was given the same clock reading.
  After any sequence of enqueue, dismiss and timer events from the empty queue, when the
  timers run at a time \<open>T\<close> the queue keeps exactly the messages whose delay of 5000
  milliseconds has not elapsed at \<open>T\<close>, in their order: a message stays for the whole
  delay and is removed once it has elapsed. Dismissing an identifier removes the
  messages with that identifier and no other message. The queue lists its messages in
  the order in which they were enqueued.
\<close>

theorem notification_queue:
  "notifications (addNotification now n s) = notifications s @ [n\<lparr>nid := now\<rparr>]
   \<and> (nid (last (notifications (addNotification now n s))) \<notin> nid ` set (notifications s))
        = (\<forall>m \<in> set (notifications s). nid m \<noteq> now)
   \<and> notifications (notification_run noNotifications (es @ [Tick T]))
        = filter (\<lambda>m. T < nid m + 5000) (notifications (notification_run noNotifications es))
   \<and> notifications (removeNotification i s) = filter (\<lambda>m. nid m \<noteq> i) (notifications s)
   \<and> subseq (notifications (notification_run noNotifications es)) (enqueued es)"
proof (intro conjI)
  show "notifications (notification_run noNotifications (es @ [Tick T]))
        = filter (\<lambda>m. T < nid m + 5000) (notifications (notification_run noNotifications es))"
    by (simp add: notification_run_snoc runTimers_exact [OF timers_pending_run])
qed (auto simp: addNotification_def removeNotification_def insertion_order)

theorem notification_queue_witness:
  "notifications (notification_run noNotifications
      ([Enqueue 1000 exampleNotification, Enqueue 3000 exampleNotification] @ [Tick 5999]))
     = [exampleNotification\<lparr>nid := 1000\<rparr>, exampleNotification\<lparr>nid := 3000\<rparr>]
   \<and> notifications (notification_run noNotifications
      ([Enqueue 1000 exampleNotification, Enqueue 3000 exampleNotification] @ [Tick 6000]))
     = [exampleNotification\<lparr>nid := 3000\<rparr>]
   \<and> notifications (removeNotification 1000 (notification_run noNotifications
      [Enqueue 1000 exampleNotification, Enqueue 3000 exampleNotification]))
     = [exampleNotification\<lparr>nid := 3000\<rparr>]
   \<and> nid (last (notifications (addNotification 3000 exampleNotification
        (notification_run noNotifications [Enqueue 1000 exampleNotification]))))
       \<notin> nid ` set (notifications
        (notification_run noNotifications [Enqueue 1000 exampleNotification]))"
  using notification_queue [of 3000 exampleNotification
      "notification_run noNotifications [Enqueue 1000 exampleNotification]"
      "[Enqueue 1000 exampleNotification, Enqueue 3000 exampleNotification]" 5999 1000]
    notification_queue [of 3000 exampleNotification
      "notification_run noNotifications
         [Enqueue 1000 exampleNotification, Enqueue 3000 exampleNotification]"
      "[Enqueue 1000 exampleNotification, Enqueue 3000 exampleNotification]" 6000 1000]
  by (simp add: notification_run_def addNotification_def noNotifications_def)

text \<open>
  Two messages enqueued at the same clock reading: the second one gets the identifier of
  the first one, which is still in the queue.
\<close>

theorem notification_id_counterexample:
  "nid (last (notifications (addNotification 1700000000000 exampleNotification
        (addNotification 1700000000000 exampleNotification noNotifications))))
   \<in> nid ` set (notifications
        (addNotification 1700000000000 exampleNotification noNotifications))"
  by (simp add: addNotification_def noNotifications_def)


end
